theory Spec2Isabelle
  imports Main
begin

section \<open>Objects exchanged with the display workers\<close>

text \<open>
  The JavaScript reads replies and options by property name; a property that is not
  there reads as \<open>undefined\<close>. A property is therefore an option: \<open>None\<close> is
  \<open>undefined\<close>, \<open>Some s\<close> is the string \<open>s\<close>. The numeric properties x, y, width and
  height are only copied, never computed with; they travel together as \<open>geometry\<close>.

  \<open>properties\<close> are the four properties of a \<open>ViewObject\<close> (src/viewobject.js, constructor);
  \<open>window_settings\<close> adds what a \<open>DisplayWindow\<close> keeps (displaywindow.js, constructor);
  a \<open>reply\<close> adds what the callers read from a worker's answer: \<open>res.command\<close>,
  \<open>state.windows\<close>, \<open>state.viewObjects\<close>, and for \<open>get-window-bounds\<close> the answer's own
  keys, each naming the settings of one window.
\<close>

record properties =
  view_id :: "string option"
  displayName :: "string option"
  windowName :: "string option"
  displayContext :: "string option"

record window_settings = properties +
  template :: "string option"
  geometry :: "int option \<times> int option \<times> int option \<times> int option"

record reply = window_settings +
  command :: "string option"
  state_windows :: "(string \<times> window_settings) list option"
  state_viewObjects :: "(string \<times> string) list option"
  window_bounds :: "(string \<times> window_settings) list"

record viewobject_options = properties +
  url :: string

type_synonym ViewObject = properties
type_synonym DisplayWindow = window_settings

text \<open>The requests sent to a worker: the \<open>command\<close> tag with its \<open>options\<close>.\<close>

datatype command =
    get_dw_context_windows_vbo string
  | get_window_bounds string
  | set_display_context string
  | hide_display_context string
  | close_display_context string
  | create_window window_settings
  | create_viewobj viewobject_options
  | reload "string option"
  | get_display_bounds
  | hide_all_windows

text \<open>
  Every \<open>Error\<close> the sources construct, and the rejection of a broker request, which
  the sources pass on as it is.
\<close>

datatype error =
    No_display_worker_found command
  | Cannot_initialize
  | WindowName_not_defined string
  | No_display_context_is_active
  | Broker_error string

text \<open>
  A promise is resolved with a value, rejected with an error, or never settled.
\<close>

datatype 'a promise = Resolved 'a | Rejected error | Pending

text \<open>The payload of the topics published by the sources.\<close>

datatype payload =
    displayContextClosed "reply list"
  | displayContextChanged string "string option"
  | displayContextCreated string

section \<open>The broker and the store\<close>

text \<open>
  \<open>io\<close> is what the process has done to the outside: the number of broker requests made
  so far, the store key \<open>display:activeDisplayContext\<close>, the topics published and the RPC
  requests issued, oldest first.

  \<open>broker\<close> is what the outside answers: the n-th request made to the broker gets
  \<open>getQueues b n\<close> when it lists the queues, and \<open>call b n q cmd\<close> when it is an RPC
  to queue \<open>q\<close>. Two requests never share a number, so the answers to two requests are
  unrelated, as the answers of workers that change between two requests are.
\<close>

record queue =
  queue_name :: string
  queue_state :: string

record broker =
  getQueues :: "nat \<Rightarrow> error + queue list"
  call :: "nat \<Rightarrow> string \<Rightarrow> command \<Rightarrow> error + reply"

record io =
  clock :: nat
  activeDisplayContext :: "string option"
  published :: "(string \<times> payload) list"
  requests :: "(string \<times> command) list"

subsection \<open>Strings\<close>

text \<open>
  \<open>s.indexOf(p)\<close>: the position of the first occurrence of \<open>p\<close> in \<open>s\<close>, or -1.
  \<open>s.replace(p, r)\<close> with a string pattern replaces the first occurrence only.
  String concatenation with \<open>undefined\<close> writes the word.
\<close>

definition startsWith :: "string \<Rightarrow> string \<Rightarrow> bool" where
  "startsWith s p = (take (length p) s = p)"

fun indexOf_from :: "int \<Rightarrow> string \<Rightarrow> string \<Rightarrow> int" where
  "indexOf_from i [] p = (if p = [] then i else - 1)"
| "indexOf_from i (c # s) p =
     (if startsWith (c # s) p then i else indexOf_from (i + 1) s p)"

definition indexOf :: "string \<Rightarrow> string \<Rightarrow> int" where
  "indexOf s p = indexOf_from 0 s p"

fun replace :: "string \<Rightarrow> string \<Rightarrow> string \<Rightarrow> string" where
  "replace [] p r = (if p = [] then r else [])"
| "replace (c # s) p r =
     (if startsWith (c # s) p then r @ drop (length p) (c # s) else c # replace s p r)"

definition String_of :: "string option \<Rightarrow> string" where
  "String_of v = (case v of None \<Rightarrow> ''undefined'' | Some s \<Rightarrow> s)"

subsection \<open>Maps and objects\<close>

text \<open>
  A JavaScript \<open>Map\<close> keeps insertion order, and so do the own keys of an object that
  are not array indices (window names and view object ids are taken not to be): setting
  a key that is there replaces its value in place, a new key goes last.
\<close>

fun map_set :: "'k \<Rightarrow> 'v \<Rightarrow> ('k \<times> 'v) list \<Rightarrow> ('k \<times> 'v) list" where
  "map_set k v [] = [(k, v)]"
| "map_set k v (p # ps) = (if fst p = k then (k, v) # ps else p # map_set k v ps)"

definition map_delete :: "'k \<Rightarrow> ('k \<times> 'v) list \<Rightarrow> ('k \<times> 'v) list" where
  "map_delete k m = filter (\<lambda>p. fst p \<noteq> k) m"

definition map_has :: "('k \<times> 'v) list \<Rightarrow> 'k \<Rightarrow> bool" where
  "map_has m k = (map_of m k \<noteq> None)"

subsection \<open>Requests\<close>

text \<open>
  \<open>Promise.all\<close> over requests that were all issued already: resolved with the replies in
  the order of the requests when every one resolved, rejected when one is rejected (with
  the error of the first rejected request of the list).
\<close>

fun Promise_all :: "(error + 'a) list \<Rightarrow> 'a list promise" where
  "Promise_all [] = Resolved []"
| "Promise_all (Inl e # rs) = Rejected e"
| "Promise_all (Inr v # rs) =
     (case Promise_all rs of Resolved vs \<Rightarrow> Resolved (v # vs) | Rejected e \<Rightarrow> Rejected e | Pending \<Rightarrow> Pending)"

text \<open>
  \<open>io.mq.call(q, JSON.stringify(cmd))\<close>, one after the other for a list of requests: each
  is issued, recorded, and answered by the broker.
\<close>

fun call_each :: "broker \<Rightarrow> (string \<times> command) list \<Rightarrow> io \<Rightarrow> (error + reply) list \<times> io" where
  "call_each b [] w = ([], w)"
| "call_each b ((q, cmd) # rest) w =
     (let r = call b (clock w) q cmd;
          w1 = w\<lparr>clock := clock w + 1, requests := requests w @ [(q, cmd)]\<rparr>;
          (rs, w2) = call_each b rest w1
      in (r # rs, w2))"

text \<open>
  src/displaycontext.js, \<open>_executeInAvailableDisplays\<close> (lines 189-213): list the queues,
  keep the names of those that are running or live and contain \<open>rpc-display-\<close>, send the
  command to each, and wait for all; with no such queue, reject.
\<close>

definition availableDisplayNames :: "queue list \<Rightarrow> string list" where
  "availableDisplayNames qs =
     map queue_name
       (filter (\<lambda>queue. (queue_state queue = ''running'' \<or> queue_state queue = ''live'')
                        \<and> indexOf (queue_name queue) ''rpc-display-'' > - 1) qs)"

definition executeInAvailableDisplays :: "broker \<Rightarrow> command \<Rightarrow> io \<Rightarrow> reply list promise \<times> io" where
  "executeInAvailableDisplays b cmd w =
     (case getQueues b (clock w) of
        Inl e \<Rightarrow> (Rejected e, w\<lparr>clock := clock w + 1\<rparr>)
      | Inr qs \<Rightarrow>
          (let (ps, w1) = call_each b (map (\<lambda>dm. (dm, cmd)) (availableDisplayNames qs))
                            (w\<lparr>clock := clock w + 1\<rparr>)
           in if length ps > 0 then (Promise_all ps, w1)
              else (Rejected (No_display_worker_found cmd), w1)))"

section \<open>DisplayContext (src/displaycontext.js)\<close>

text \<open>
  The object handed to the handler registered with \<open>onDisplayWorkerQuit\<close>.
\<close>

record quit_message =
  closedDisplay :: string
  closedWindows :: "string option list"
  closedViewObjects :: "string option list"

text \<open>
  The fields of the class. The two maps are keyed by what the code passes to \<open>set\<close>:
  a key of \<open>Object.keys\<close> is a string, \<open>res.windowName\<close> and \<open>vo.view_id\<close> are
  properties of a reply. \<open>displayWorkerQuitHandler\<close> tells whether a handler is
  registered; \<open>quit_messages\<close> are the calls it received, oldest first.
\<close>

record DisplayContext =
  name :: string
  displayWindows :: "(string option \<times> DisplayWindow) list"
  viewObjects :: "(string option \<times> ViewObject) list"
  window_settings :: "(string \<times> window_settings) list option"
  displayWorkerQuitHandler :: bool
  quit_messages :: "quit_message list"

definition truthy :: "string option \<Rightarrow> bool" where
  "truthy v = (v \<noteq> None \<and> v \<noteq> Some [])"

definition new_DisplayWindow :: "'a window_settings_scheme \<Rightarrow> DisplayWindow" where
  "new_DisplayWindow options =
     \<lparr>view_id = None, displayName = displayName options, windowName = windowName options,
      displayContext = displayContext options, template = Some ''index.html'',
      geometry = geometry options\<rparr>"

definition new_ViewObject :: "'a properties_scheme \<Rightarrow> ViewObject" where
  "new_ViewObject options =
     \<lparr>view_id = view_id options, displayName = displayName options,
      windowName = windowName options, displayContext = displayContext options\<rparr>"

text \<open>
  The constructor (lines 64-90). Settings that are not empty are kept, each with its
  \<open>windowName\<close> set to its key and, when it has a \<open>displayName\<close>, that set to the key too.
  The two subscriptions of the constructor are \<open>on_display_removed\<close> and
  \<open>onQueueDeleted\<close> below.
\<close>

definition new_DisplayContext :: "string \<Rightarrow> (string \<times> window_settings) list \<Rightarrow> DisplayContext" where
  "new_DisplayContext n settings =
     \<lparr>name = n, displayWindows = [], viewObjects = [],
      window_settings =
        (if settings \<noteq> [] then
           Some (map (\<lambda>(k, s). (k, s\<lparr>windowName := Some k,
                    displayName := (if truthy (displayName s) then Some k else displayName s)\<rparr>))
                 settings)
         else None),
      displayWorkerQuitHandler = False, quit_messages = []\<rparr>"

definition onDisplayWorkerQuit :: "DisplayContext \<Rightarrow> DisplayContext" where
  "onDisplayWorkerQuit c = c\<lparr>displayWorkerQuitHandler := True\<rparr>"

subsection \<open>Cleaning up after a worker\<close>

text \<open>
  \<open>_clean\<close> (lines 92-116) in its three steps: the windows of the display (lines 93-99),
  the view objects of the display (lines 100-106), the handler (lines 108-115).
\<close>

definition clean_windows :: "string \<Rightarrow> DisplayContext \<Rightarrow> string option list \<times> DisplayContext" where
  "clean_windows D c =
     (let closed = map fst (filter (\<lambda>(k, v). displayName v = Some D) (displayWindows c))
      in (closed, c\<lparr>displayWindows := fold map_delete closed (displayWindows c)\<rparr>))"

definition clean_viewObjects :: "string \<Rightarrow> DisplayContext \<Rightarrow> string option list \<times> DisplayContext" where
  "clean_viewObjects D c =
     (let vboToRemove = map fst (filter (\<lambda>(k, v). displayName v = Some D) (viewObjects c))
      in (vboToRemove, c\<lparr>viewObjects := fold map_delete vboToRemove (viewObjects c)\<rparr>))"

definition clean :: "string \<Rightarrow> DisplayContext \<Rightarrow> DisplayContext" where
  "clean D c =
     (let (closed, c1) = clean_windows D c;
          (vboToRemove, c2) = clean_viewObjects D c1
      in if displayWorkerQuitHandler c2 then
           c2\<lparr>quit_messages := quit_messages c2 @
                [\<lparr>closedDisplay = D, closedWindows = closed, closedViewObjects = vboToRemove\<rparr>]\<rparr>
         else c2)"

definition on_display_removed :: "string \<Rightarrow> DisplayContext \<Rightarrow> DisplayContext" where
  "on_display_removed m c = clean m c"

definition onQueueDeleted :: "string \<Rightarrow> DisplayContext \<Rightarrow> DisplayContext" where
  "onQueueDeleted qn c =
     (if indexOf qn ''rpc-display-'' > - 1 then clean (replace qn ''rpc-display-'' []) c else c)"

subsection \<open>Showing, reloading, bounds, initialization\<close>

text \<open>
  What \<open>restoreFromDisplayWorkerStates\<close> and \<open>setActive\<close> resolve with: the list of replies
  of a broadcast, or the object of \<open>initialize\<close>; \<open>false\<close>; and the strings and \<open>null\<close>
  a store key reads as.
\<close>

datatype jsval = JNull | JFalse | JString string | JArray "reply list" | JObject "(string \<times> reply) list"

definition then_value :: "('a \<Rightarrow> 'b) \<Rightarrow> 'a promise \<Rightarrow> 'b promise" where
  "then_value f p = (case p of Resolved v \<Rightarrow> Resolved (f v) | Rejected e \<Rightarrow> Rejected e | Pending \<Rightarrow> Pending)"

text \<open>\<open>show\<close> (lines 265-276): the store key is set once the broadcast resolved.\<close>

definition show_context :: "broker \<Rightarrow> DisplayContext \<Rightarrow> io \<Rightarrow> reply list promise \<times> io" where
  "show_context b c w =
     (let (p, w1) = executeInAvailableDisplays b (set_display_context (name c)) w
      in case p of
           Resolved m \<Rightarrow> (Resolved m, w1\<lparr>activeDisplayContext := Some (name c)\<rparr>)
         | Rejected e \<Rightarrow> (Rejected e, w1)
         | Pending \<Rightarrow> (Pending, w1))"

text \<open>\<open>reloadAll\<close> (lines 335-342), with \<open>ViewObject.reload\<close> (src/viewobject.js).\<close>

definition reload_requests :: "(string option \<times> ViewObject) list \<Rightarrow> (string \<times> command) list" where
  "reload_requests vos =
     map (\<lambda>(k, v). (''rpc-display-'' @ String_of (displayName v), reload (view_id v))) vos"

definition reloadAll :: "broker \<Rightarrow> DisplayContext \<Rightarrow> io \<Rightarrow> reply list promise \<times> io" where
  "reloadAll b c w =
     (let (ps, w1) = call_each b (reload_requests (viewObjects c)) w in (Promise_all ps, w1))"

text \<open>
  \<open>getWindowBounds\<close> (lines 219-242): the settings the context has when they are not
  empty, else the bounds the workers report, merged into one object and kept.
\<close>

definition boundMap_of :: "reply list \<Rightarrow> (string \<times> window_settings) list" where
  "boundMap_of bounds = fold (\<lambda>r m. fold (\<lambda>(k, v). map_set k v) (window_bounds r) m) bounds []"

definition getWindowBounds ::
  "broker \<Rightarrow> DisplayContext \<Rightarrow> io \<Rightarrow> (string \<times> window_settings) list promise \<times> DisplayContext \<times> io" where
  "getWindowBounds b c w =
     (if window_settings c \<noteq> None \<and> window_settings c \<noteq> Some [] then
        (Resolved (the (window_settings c)), c, w)
      else
        (let (p, w1) = executeInAvailableDisplays b (get_window_bounds (name c)) w
         in case p of
              Resolved bounds \<Rightarrow>
                (Resolved (boundMap_of bounds), c\<lparr>window_settings := Some (boundMap_of bounds)\<rparr>, w1)
            | Rejected e \<Rightarrow> (Rejected e, c, w1)
            | Pending \<Rightarrow> (Pending, c, w1)))"

text \<open>
  \<open>initialize\<close> (lines 344-373). The options are changed in place (each gets the
  template) once \<open>show\<close> resolved; the second component of the result is the options
  object as the call leaves it, for the callers that passed their own settings.
\<close>

definition create_window_requests :: "(string \<times> window_settings) list \<Rightarrow> (string \<times> command) list" where
  "create_window_requests options =
     map (\<lambda>(k, s). (''rpc-display-'' @ String_of (displayName s), create_window s)) options"

definition initialize ::
  "broker \<Rightarrow> (string \<times> window_settings) list \<Rightarrow> DisplayContext \<Rightarrow> io \<Rightarrow>
     (string \<times> reply) list promise \<times> (string \<times> window_settings) list \<times> DisplayContext \<times> io" where
  "initialize b options c w =
     (if options = [] then (Rejected Cannot_initialize, options, c, w)
      else
        (let (p, w1) = show_context b c w
         in case p of
              Rejected e \<Rightarrow> (Rejected e, options, c, w1)
            | Pending \<Rightarrow> (Pending, options, c, w1)
            | Resolved u \<Rightarrow>
                (let options1 = map (\<lambda>(k, s). (k, s\<lparr>template := Some ''index.html''\<rparr>)) options;
                     (ps, w2) = call_each b (create_window_requests options1) w1
                 in case Promise_all ps of
                      Rejected e \<Rightarrow> (Rejected e, options1, c, w2)
                    | Pending \<Rightarrow> (Pending, options1, c, w2)
                    | Resolved m \<Rightarrow>
                        (Resolved (fold (\<lambda>res. map_set (String_of (windowName res)) res) m []),
                         options1,
                         c\<lparr>displayWindows :=
                             fold (\<lambda>res. map_set (windowName res) (new_DisplayWindow res)) m
                               (displayWindows c)\<rparr>,
                         w2))))"

subsection \<open>Reconciliation\<close>

text \<open>
  The body of \<open>states.forEach\<close> in \<open>restoreFromDisplayWorkerStates\<close> (lines 145-167):
  every window of the state is counted and set, then every view object of the state
  whose window is in the map is set.
\<close>

definition restore_window ::
  "string \<times> window_settings \<Rightarrow> nat \<times> DisplayContext \<Rightarrow> nat \<times> DisplayContext" where
  "restore_window kv nc =
     (fst nc + 1,
      (snd nc)\<lparr>displayWindows := map_set (Some (fst kv)) (new_DisplayWindow (snd kv)) (displayWindows (snd nc))\<rparr>)"

definition restore_viewObject :: "string \<times> string \<Rightarrow> DisplayContext \<Rightarrow> DisplayContext" where
  "restore_viewObject kv c =
     (case map_of (displayWindows c) (Some (snd kv)) of
        None \<Rightarrow> c
      | Some wn \<Rightarrow>
          c\<lparr>viewObjects :=
              map_set (Some (fst kv))
                (new_ViewObject \<lparr>view_id = Some (fst kv), displayName = displayName wn,
                                 windowName = windowName wn, displayContext = Some (name c)\<rparr>)
                (viewObjects c)\<rparr>)"

definition restore_state :: "reply \<Rightarrow> nat \<times> DisplayContext \<Rightarrow> nat \<times> DisplayContext" where
  "restore_state state nc =
     (let nc1 = (case state_windows state of None \<Rightarrow> nc | Some ws \<Rightarrow> fold restore_window ws nc)
      in case state_viewObjects state of
           None \<Rightarrow> nc1
         | Some vs \<Rightarrow> (fst nc1, fold restore_viewObject vs (snd nc1)))"

definition restore_states :: "reply list \<Rightarrow> DisplayContext \<Rightarrow> nat \<times> DisplayContext" where
  "restore_states states c = fold restore_state states (0, c\<lparr>displayWindows := [], viewObjects := []\<rparr>)"

text \<open>\<open>restoreFromDisplayWorkerStates\<close> (lines 132-187).\<close>

definition restoreFromDisplayWorkerStates ::
  "broker \<Rightarrow> DisplayContext \<Rightarrow> bool \<Rightarrow> io \<Rightarrow> jsval promise \<times> DisplayContext \<times> io" where
  "restoreFromDisplayWorkerStates b c reset w =
     (let (p, w1) = executeInAvailableDisplays b (get_dw_context_windows_vbo (name c)) w
      in case p of
           Rejected e \<Rightarrow> (Rejected e, c, w1)
         | Pending \<Rightarrow> (Pending, c, w1)
         | Resolved states \<Rightarrow>
             (let (windowCount, c1) = restore_states states c
              in if windowCount = 0 then
                   (let (pb, c2, w2) = getWindowBounds b c1 w1
                    in case pb of
                         Rejected e \<Rightarrow> (Rejected e, c2, w2)
                       | Pending \<Rightarrow> (Pending, c2, w2)
                       | Resolved bounds \<Rightarrow>
                           (let (pi, bounds1, c3, w3) = initialize b bounds c2 w2
                            in (then_value JObject pi, c3\<lparr>window_settings := Some bounds1\<rparr>, w3)))
                 else if reset then
                   (let (ps, w2) = show_context b c1 w1
                    in case ps of
                         Rejected e \<Rightarrow> (Rejected e, c1, w2)
                       | Pending \<Rightarrow> (Pending, c1, w2)
                       | Resolved m \<Rightarrow>
                           (let (pr, w3) = reloadAll b c1 w2 in (then_value JArray pr, c1, w3)))
                 else
                   (let (ps, w2) = show_context b c1 w1 in (then_value JArray ps, c1, w2))))"

subsection \<open>Closing\<close>

text \<open>
  \<open>close\<close> (lines 296-329). The store is read and the key deleted in a callback of
  its own; the model runs it at once.
\<close>

definition close :: "broker \<Rightarrow> DisplayContext \<Rightarrow> io \<Rightarrow> reply list promise \<times> DisplayContext \<times> io" where
  "close b c w =
     (let (p, w1) = executeInAvailableDisplays b (close_display_context (name c)) w
      in case p of
           Rejected e \<Rightarrow> (Rejected e, c, w1)
         | Pending \<Rightarrow> (Pending, c, w1)
         | Resolved m \<Rightarrow>
             (let isHidden = list_ex (\<lambda>res. command res = Some ''hide-display-context'') m
              in if \<not> isHidden then
                   (Resolved m,
                    c\<lparr>displayWindows := [], viewObjects := []\<rparr>,
                    w1\<lparr>activeDisplayContext :=
                          (if activeDisplayContext w1 = Some (name c) then None
                           else activeDisplayContext w1),
                        published := published w1 @
                          [(''display.displayContext.closed'', displayContextClosed m)]\<rparr>)
                 else (Resolved m, c, w1)))"

subsection \<open>Creating a view object\<close>

text \<open>
  \<open>_postRequest\<close> of \<open>DisplayWindow\<close> (src/displaywindow.js): one request to the worker of
  the display. \<open>DisplayWindow.createViewObject\<close> (same file) fills in the options, sends
  \<open>create-viewobj\<close> and makes a \<open>ViewObject\<close> of the reply.
\<close>

definition postRequest :: "broker \<Rightarrow> string option \<Rightarrow> command \<Rightarrow> io \<Rightarrow> (error + reply) \<times> io" where
  "postRequest b dn data w =
     (let q = ''rpc-display-'' @ String_of dn
      in (call b (clock w) q data, w\<lparr>clock := clock w + 1, requests := requests w @ [(q, data)]\<rparr>))"

definition DisplayWindow_createViewObject ::
  "broker \<Rightarrow> DisplayWindow \<Rightarrow> viewobject_options \<Rightarrow> io \<Rightarrow> ViewObject promise \<times> io" where
  "DisplayWindow_createViewObject b dw options w =
     (let options1 = options\<lparr>windowName := windowName dw, displayContext := displayContext dw,
                             displayName := displayName dw\<rparr>;
          (r, w1) = postRequest b (displayName dw) (create_viewobj options1) w
      in (case r of Inl e \<Rightarrow> Rejected e | Inr m \<Rightarrow> Resolved (new_ViewObject m), w1))"

text \<open>
  The promise built in the else branch of \<open>createViewObject\<close> (lines 444-451): its
  executor starts \<open>initialize\<close> and calls neither \<open>resolve\<close> nor \<open>reject\<close> when the window
  name was found, and rejects when it was not. The promise of \<open>initialize\<close> is dropped;
  what \<open>initialize\<close> does to the context and to the outside happens all the same.
\<close>

definition window_promise ::
  "broker \<Rightarrow> bool \<Rightarrow> (string \<times> window_settings) list \<Rightarrow> string \<Rightarrow> DisplayContext \<Rightarrow> io \<Rightarrow>
     (string \<times> reply) list promise \<times> DisplayContext \<times> io" where
  "window_promise b windowNameCheck bounds wn c w =
     (if windowNameCheck then
        (let (pi, bounds1, c1, w1) = initialize b bounds c w
         in (Pending, c1\<lparr>window_settings := Some bounds1\<rparr>, w1))
      else (Rejected (WindowName_not_defined wn), c, w))"

text \<open>
  \<open>createViewObject\<close> (lines 418-456). The function calls itself in the last \<open>then\<close>;
  the first argument bounds the number of nested calls, and \<open>None\<close> is a call that
  needed more.
\<close>

fun createViewObject ::
  "nat \<Rightarrow> broker \<Rightarrow> viewobject_options \<Rightarrow> string \<Rightarrow> DisplayContext \<Rightarrow> io \<Rightarrow>
     (ViewObject promise \<times> DisplayContext \<times> io) option" where
  "createViewObject 0 b options wn c w = None"
| "createViewObject (Suc n) b options wn c w =
     (let options1 = options\<lparr>displayContext := Some (name c)\<rparr>
      in if map_has (displayWindows c) (Some wn) then
           (let (p, w1) = DisplayWindow_createViewObject b (the (map_of (displayWindows c) (Some wn))) options1 w
            in case p of
                 Resolved vo \<Rightarrow> Some (Resolved vo, c\<lparr>viewObjects := map_set (view_id vo) vo (viewObjects c)\<rparr>, w1)
               | Rejected e \<Rightarrow> Some (Rejected e, c, w1)
               | Pending \<Rightarrow> Some (Pending, c, w1))
         else
           (let (pb, c1, w1) = getWindowBounds b c w
            in case pb of
                 Rejected e \<Rightarrow> Some (Rejected e, c1, w1)
               | Pending \<Rightarrow> Some (Pending, c1, w1)
               | Resolved bounds \<Rightarrow>
                   (let bounds1 = map (\<lambda>(k, s). (k, s\<lparr>displayName := (if displayName s = None then Some k else displayName s),
                                                       windowName := Some k, template := Some ''index.html'',
                                                       displayContext := Some (name c)\<rparr>)) bounds;
                        windowNameCheck = (wn \<in> set (map fst bounds));
                        (pw, c2, w2) = window_promise b windowNameCheck bounds1 wn (c1\<lparr>window_settings := Some bounds1\<rparr>) w1
                    in case pw of
                         Rejected e \<Rightarrow> Some (Rejected e, c2, w2)
                       | Pending \<Rightarrow> Some (Pending, c2, w2)
                       | Resolved m \<Rightarrow> createViewObject n b options1 wn c2 w2)))"

section \<open>DisplayContextFactory (src/unnamed/part_002)\<close>

text \<open>
  The factory is written against the TypeScript \<open>DisplayContext\<close>, whose file is not among
  the sources; it uses two things of it, the constructor and
  \<open>restoreFromDisplayWorkerStates\<close>. The operations below take the second as their first
  argument and build the context with \<open>new_DisplayContext\<close>.

  The store: \<open>get\<close> reads the key, \<open>getset\<close> reads it and writes the new value in one
  step, \<open>del\<close> removes it.
\<close>

type_synonym reconciliation = "DisplayContext \<Rightarrow> bool \<Rightarrow> io \<Rightarrow> jsval promise \<times> DisplayContext \<times> io"

definition getset :: "string \<Rightarrow> io \<Rightarrow> string option \<times> io" where
  "getset v w = (activeDisplayContext w, w\<lparr>activeDisplayContext := Some v\<rparr>)"



text \<open>\<open>setActive\<close> (lines 203-222).\<close>

definition setActive :: "reconciliation \<Rightarrow> string \<Rightarrow> bool \<Rightarrow> io \<Rightarrow> jsval promise \<times> io" where
  "setActive restore display_ctx_name reset w =
     (let (nm, w1) = getset display_ctx_name w
      in if nm \<noteq> Some display_ctx_name then
           (let (p, dc, w2) = restore (new_DisplayContext display_ctx_name []) reset w1
            in case p of
                 Resolved m \<Rightarrow>
                   (Resolved m,
                    w2\<lparr>published := published w2 @
                         [(''display.displayContext.changed'', displayContextChanged display_ctx_name nm)]\<rparr>)
               | Rejected e \<Rightarrow> (Rejected e, w2)
               | Pending \<Rightarrow> (Pending, w2))
         else (Resolved JFalse, w1))"


section \<open>Example values\<close>

text \<open>
  One display worker, \<open>front\<close>, beside a queue that is no display worker. It remembers
  the context \<open>alpha\<close> with the window \<open>main\<close> and the view object \<open>p1\<close> in it, and no
  other context; it answers every other command with the command's name.
\<close>

definition status_reply :: "string \<Rightarrow> reply" where
  "status_reply c =
     \<lparr>view_id = None, displayName = Some ''front'', windowName = None, displayContext = None,
      template = None, geometry = (None, None, None, None), command = Some c,
      state_windows = None, state_viewObjects = None, window_bounds = []\<rparr>"

definition main_window :: window_settings where
  "main_window =
     \<lparr>view_id = None, displayName = Some ''front'', windowName = Some ''main'',
      displayContext = Some ''alpha'', template = Some ''index.html'',
      geometry = (Some 0, Some 0, Some 800, Some 600)\<rparr>"

definition p1_viewObject :: ViewObject where
  "p1_viewObject =
     \<lparr>view_id = Some ''p1'', displayName = Some ''front'', windowName = Some ''main'',
      displayContext = Some ''alpha''\<rparr>"

definition front_queues :: "queue list" where
  "front_queues =
     [\<lparr>queue_name = ''rpc-display-front'', queue_state = ''running''\<rparr>,
      \<lparr>queue_name = ''rpc-speaker'', queue_state = ''running''\<rparr>]"

definition front_answer :: "command \<Rightarrow> reply" where
  "front_answer cmd =
     (case cmd of
        get_dw_context_windows_vbo ctx \<Rightarrow>
          (if ctx = ''alpha'' then
             (status_reply ''get-dw-context-windows-vbo'')
               \<lparr>state_windows := Some [(''main'', main_window)],
                state_viewObjects := Some [(''p1'', ''main'')]\<rparr>
           else (status_reply ''get-dw-context-windows-vbo'')
               \<lparr>state_windows := Some [], state_viewObjects := Some []\<rparr>)
      | get_window_bounds ctx \<Rightarrow> status_reply ''get-window-bounds''
      | set_display_context ctx \<Rightarrow> status_reply ''set-display-context''
      | hide_display_context ctx \<Rightarrow> status_reply ''hide-display-context''
      | close_display_context ctx \<Rightarrow> status_reply ''close-display-context''
      | create_window s \<Rightarrow>
          (status_reply ''create-window'')
            \<lparr>windowName := windowName s, displayContext := displayContext s, geometry := geometry s\<rparr>
      | create_viewobj v \<Rightarrow>
          (status_reply ''create-viewobj'')
            \<lparr>view_id := Some ''v1'', windowName := windowName v, displayContext := displayContext v\<rparr>
      | reload v \<Rightarrow> (status_reply ''reload'')\<lparr>view_id := v\<rparr>
      | get_display_bounds \<Rightarrow>
          (status_reply ''get-display-bounds'')\<lparr>geometry := (Some 0, Some 0, Some 1920, Some 1080)\<rparr>
      | hide_all_windows \<Rightarrow> status_reply ''hide-all-windows'')"

definition front_worker :: broker where
  "front_worker = \<lparr>getQueues = (\<lambda>n. Inr front_queues), call = (\<lambda>n q cmd. Inr (front_answer cmd))\<rparr>"

text \<open>
  The same worker when it keeps the windows of a context it is asked to close: it hides
  the context and says so.
\<close>

definition keeping_worker :: broker where
  "keeping_worker =
     \<lparr>getQueues = (\<lambda>n. Inr front_queues),
      call = (\<lambda>n q cmd. Inr (case cmd of
                close_display_context ctx \<Rightarrow> status_reply ''hide-display-context''
              | _ \<Rightarrow> front_answer cmd))\<rparr>"

text \<open>The context \<open>alpha\<close> as reconciled with that worker, with a quit handler, and a process
  whose store names \<open>alpha\<close> as the active context.\<close>

definition alpha_context :: DisplayContext where
  "alpha_context =
     \<lparr>name = ''alpha'', displayWindows = [(Some ''main'', main_window)],
      viewObjects = [(Some ''p1'', p1_viewObject)], window_settings = None,
      displayWorkerQuitHandler = True, quit_messages = []\<rparr>"

definition alpha_active :: io where
  "alpha_active = \<lparr>clock = 0, activeDisplayContext = Some ''alpha'', published = [], requests = []\<rparr>"

text \<open>
  A process that has done nothing yet, and the settings a caller declares for a context
  \<open>beta\<close> with one window, \<open>sidebar\<close>.
\<close>

definition idle :: io where
  "idle = \<lparr>clock = 0, activeDisplayContext = None, published = [], requests = []\<rparr>"

definition side_settings :: "(string \<times> window_settings) list" where
  "side_settings =
     [(''sidebar'', \<lparr>view_id = None, displayName = Some ''front'', windowName = None,
                     displayContext = Some ''beta'', template = None,
                     geometry = (Some 0, Some 0, Some 300, Some 600)\<rparr>)]"


text \<open>The options of a view object to create.\<close>

definition page :: viewobject_options where
  "page = \<lparr>view_id = None, displayName = None, windowName = None, displayContext = None,
            url = ''https://example.com''\<rparr>"

section \<open>Notions of the specification\<close>

text \<open>
  The total count of window entries across all worker replies, and the requests a call
  issued: those in the record after the call that were not there before it.
\<close>

definition window_total :: "reply list \<Rightarrow> nat" where
  "window_total states =
     sum_list (map (\<lambda>state. case state_windows state of None \<Rightarrow> 0 | Some ws \<Rightarrow> length ws) states)"

definition new_requests :: "io \<Rightarrow> io \<Rightarrow> (string \<times> command) list" where
  "new_requests w w' = drop (length (requests w)) (requests w')"

text \<open>
  A reply names its windows by their keys when every window entry carries, as its
  \<open>windowName\<close>, the key it is reported under. A reply without the view object entries
  whose window is not among the keys \<open>G\<close>. No view object of a context dangles when the
  \<open>windowName\<close> of each is a key of the window map.
\<close>

definition named_by_key :: "reply \<Rightarrow> bool" where
  "named_by_key state =
     (case state_windows state of
        None \<Rightarrow> True
      | Some ws \<Rightarrow> list_all (\<lambda>kv. windowName (snd kv) = Some (fst kv)) ws)"

definition without_unresolved :: "string option set \<Rightarrow> reply \<Rightarrow> reply" where
  "without_unresolved G state =
     state\<lparr>state_viewObjects := map_option (filter (\<lambda>kv. Some (snd kv) \<in> G)) (state_viewObjects state)\<rparr>"

definition no_dangling :: "DisplayContext \<Rightarrow> bool" where
  "no_dangling c = list_all (\<lambda>kv. map_has (displayWindows c) (windowName (snd kv))) (viewObjects c)"

text \<open>
  A worker that reports the window \<open>main\<close> of \<open>alpha\<close> under the key \<open>w1\<close>.
\<close>

definition mislabelling_worker :: broker where
  "mislabelling_worker =
     \<lparr>getQueues = (\<lambda>n. Inr front_queues),
      call = (\<lambda>n q cmd. Inr (case cmd of
                get_dw_context_windows_vbo ctx \<Rightarrow>
                  (status_reply ''get-dw-context-windows-vbo'')
                    \<lparr>state_windows := Some [(''w1'', main_window)],
                     state_viewObjects := Some [(''p1'', ''w1'')]\<rparr>
              | _ \<Rightarrow> front_answer cmd))\<rparr>"

section \<open>Requests and fan-out\<close>

lemma call_each_length: "length (fst (call_each b ts w)) = length ts"
  by (induction ts arbitrary: w) (auto simp: Let_def case_prod_beta)

lemma call_each_requests: "requests (snd (call_each b ts w)) = requests w @ ts"
  by (induction ts arbitrary: w) (auto simp: Let_def case_prod_beta)

lemma call_each_store: "activeDisplayContext (snd (call_each b ts w)) = activeDisplayContext w"
  by (induction ts arbitrary: w) (auto simp: Let_def case_prod_beta)

lemma call_each_published: "published (snd (call_each b ts w)) = published w"
  by (induction ts arbitrary: w) (auto simp: Let_def case_prod_beta)

lemma Promise_all_Resolved_length: "Promise_all rs = Resolved vs \<Longrightarrow> length vs = length rs"
proof (induction rs arbitrary: vs)
  case Nil
  then show ?case by simp
next
  case (Cons r rs)
  then show ?case by (cases r) (auto split: promise.splits)
qed

lemma Promise_all_not_Pending: "Promise_all rs \<noteq> Pending"
proof (induction rs)
  case Nil
  show ?case by simp
next
  case (Cons r rs)
  then show ?case by (cases r) (auto split: promise.splits)
qed

lemmas example_defs = status_reply_def main_window_def p1_viewObject_def front_queues_def
  front_answer_def front_worker_def alpha_context_def alpha_active_def idle_def

lemmas broadcast_defs = executeInAvailableDisplays_def availableDisplayNames_def indexOf_def startsWith_def

text \<open>
  C5. When the listing of the queues succeeds and no queue is a running or live display
  worker queue, the broadcast is rejected with the error 'No display-worker found while
  executing', which names the command, and no request is issued. Whatever the broker
  answers, a broadcast is never resolved with an empty list of replies.
\<close>

theorem executeInAvailableDisplays_no_workers:
  "(getQueues b (clock w) = Inr qs \<and> availableDisplayNames qs = [] \<longrightarrow>
      fst (executeInAvailableDisplays b cmd w) = Rejected (No_display_worker_found cmd)
      \<and> requests (snd (executeInAvailableDisplays b cmd w)) = requests w)
   \<and> fst (executeInAvailableDisplays b cmd w) \<noteq> Resolved []"
proof
  show "getQueues b (clock w) = Inr qs \<and> availableDisplayNames qs = [] \<longrightarrow>
      fst (executeInAvailableDisplays b cmd w) = Rejected (No_display_worker_found cmd)
      \<and> requests (snd (executeInAvailableDisplays b cmd w)) = requests w"
    by (simp add: executeInAvailableDisplays_def)
next
  show "fst (executeInAvailableDisplays b cmd w) \<noteq> Resolved []"
  proof (cases "getQueues b (clock w)")
    case (Inl e)
    then show ?thesis by (simp add: executeInAvailableDisplays_def)
  next
    case (Inr qs)
    obtain ps w1 where ce: "call_each b (map (\<lambda>dm. (dm, cmd)) (availableDisplayNames qs))
                            (w\<lparr>clock := clock w + 1\<rparr>) = (ps, w1)"
      by (cases "call_each b (map (\<lambda>dm. (dm, cmd)) (availableDisplayNames qs))
                            (w\<lparr>clock := clock w + 1\<rparr>)") auto
    show ?thesis
    proof (cases "length ps > 0")
      case True
      have "Promise_all ps \<noteq> Resolved []"
        using True Promise_all_Resolved_length [of ps "[]"] by auto
      then show ?thesis using Inr ce True by (simp add: executeInAvailableDisplays_def)
    next
      case False
      then show ?thesis using Inr ce by (simp add: executeInAvailableDisplays_def)
    qed
  qed
qed

theorem executeInAvailableDisplays_no_workers_witness:
  "fst (executeInAvailableDisplays
          \<lparr>getQueues = (\<lambda>n. Inr [\<lparr>queue_name = ''rpc-display-main'', queue_state = ''idle''\<rparr>,
                                  \<lparr>queue_name = ''rpc-speaker'', queue_state = ''running''\<rparr>]),
           call = (\<lambda>n q cmd. Inl (Broker_error ''unreachable''))\<rparr>
          (hide_display_context ''alpha'')
          \<lparr>clock = 0, activeDisplayContext = None, published = [], requests = []\<rparr>)
     = Rejected (No_display_worker_found (hide_display_context ''alpha''))"
  using executeInAvailableDisplays_no_workers
    [where b = "\<lparr>getQueues = (\<lambda>n. Inr [\<lparr>queue_name = ''rpc-display-main'', queue_state = ''idle''\<rparr>,
                                  \<lparr>queue_name = ''rpc-speaker'', queue_state = ''running''\<rparr>]),
           call = (\<lambda>n q cmd. Inl (Broker_error ''unreachable''))\<rparr>"
       and w = "\<lparr>clock = 0, activeDisplayContext = None, published = [], requests = []\<rparr>"
       and qs = "[\<lparr>queue_name = ''rpc-display-main'', queue_state = ''idle''\<rparr>,
                                  \<lparr>queue_name = ''rpc-speaker'', queue_state = ''running''\<rparr>]"
       and cmd = "hide_display_context ''alpha''"]
  by (simp add: availableDisplayNames_def indexOf_def startsWith_def)

lemma executeInAvailableDisplays_store:
  "activeDisplayContext (snd (executeInAvailableDisplays b cmd w)) = activeDisplayContext w"
  by (auto simp: executeInAvailableDisplays_def case_prod_beta Let_def call_each_store split: sum.splits)

lemma executeInAvailableDisplays_published:
  "published (snd (executeInAvailableDisplays b cmd w)) = published w"
  by (auto simp: executeInAvailableDisplays_def case_prod_beta Let_def call_each_published split: sum.splits)

lemma executeInAvailableDisplays_requests:
  "\<exists>ts. requests (snd (executeInAvailableDisplays b cmd w)) = requests w @ ts
        \<and> (\<forall>t \<in> set ts. snd t = cmd)"
  by (auto simp: executeInAvailableDisplays_def case_prod_beta Let_def call_each_requests split: sum.splits)

section \<open>What the operations of a context do to the outside\<close>


lemma show_context_store:
  "activeDisplayContext (snd (show_context b c w)) =
     (case fst (show_context b c w) of Resolved m \<Rightarrow> Some (name c) | Rejected e \<Rightarrow> activeDisplayContext w
        | Pending \<Rightarrow> activeDisplayContext w)"
  using executeInAvailableDisplays_store [of b "set_display_context (name c)" w]
  by (auto simp: show_context_def case_prod_beta split: promise.splits)

lemma show_context_requests:
  "\<exists>ts. requests (snd (show_context b c w)) = requests w @ ts
        \<and> (\<forall>t \<in> set ts. snd t = set_display_context (name c))"
  using executeInAvailableDisplays_requests [of b "set_display_context (name c)" w]
  by (auto simp: show_context_def case_prod_beta split: promise.splits)


lemma reloadAll_store: "activeDisplayContext (snd (reloadAll b c w)) = activeDisplayContext w"
  by (simp add: reloadAll_def case_prod_beta call_each_store)



lemma getWindowBounds_store:
  "activeDisplayContext (snd (snd (getWindowBounds b c w))) = activeDisplayContext w"
  using executeInAvailableDisplays_store [of b "get_window_bounds (name c)" w]
  by (auto simp: getWindowBounds_def case_prod_beta split: promise.splits)

lemma getWindowBounds_requests:
  "\<exists>ts. requests (snd (snd (getWindowBounds b c w))) = requests w @ ts
        \<and> (\<forall>t \<in> set ts. snd t = get_window_bounds (name c))"
  using executeInAvailableDisplays_requests [of b "get_window_bounds (name c)" w]
  by (auto simp: getWindowBounds_def case_prod_beta split: promise.splits)

lemma getWindowBounds_context:
  "name (fst (snd (getWindowBounds b c w))) = name c
   \<and> displayWindows (fst (snd (getWindowBounds b c w))) = displayWindows c
   \<and> viewObjects (fst (snd (getWindowBounds b c w))) = viewObjects c"
  by (auto simp: getWindowBounds_def case_prod_beta split: promise.splits)


lemma initialize_store:
  "activeDisplayContext (snd (snd (snd (initialize b options c w)))) = activeDisplayContext w
   \<or> activeDisplayContext (snd (snd (snd (initialize b options c w)))) = Some (name c)"
  using show_context_store [of b c w]
  by (auto simp: initialize_def case_prod_beta Let_def call_each_store split: promise.splits)


lemma initialize_requests:
  "\<exists>ts. requests (snd (snd (snd (initialize b options c w)))) = requests w @ ts
        \<and> (\<forall>t \<in> set ts. snd t = set_display_context (name c) \<or> (\<exists>s. snd t = create_window s))"
proof (cases "options = []")
  case True
  then show ?thesis by (simp add: initialize_def)
next
  case False
  obtain ts where ts: "requests (snd (show_context b c w)) = requests w @ ts"
      "\<forall>t \<in> set ts. snd t = set_display_context (name c)"
    using show_context_requests [of b c w] by blast
  show ?thesis
  proof (cases "fst (show_context b c w)")
    case (Resolved u)
    let ?cw = "create_window_requests (map (\<lambda>(k, s). (k, s\<lparr>template := Some ''index.html''\<rparr>)) options)"
    have "requests (snd (snd (snd (initialize b options c w)))) = requests w @ (ts @ ?cw)"
      using False Resolved ts(1)
      by (auto simp: initialize_def case_prod_beta Let_def call_each_requests split: promise.splits)
    moreover have "\<forall>t \<in> set (ts @ ?cw). snd t = set_display_context (name c) \<or> (\<exists>s. snd t = create_window s)"
      using ts(2) by (auto simp: create_window_requests_def)
    ultimately show ?thesis by blast
  next
    case (Rejected e)
    then show ?thesis using False ts by (auto simp: initialize_def case_prod_beta)
  next
    case Pending
    then show ?thesis using False ts by (auto simp: initialize_def case_prod_beta)
  qed
qed

lemma initialize_context:
  "name (fst (snd (snd (initialize b options c w)))) = name c
   \<and> viewObjects (fst (snd (snd (initialize b options c w)))) = viewObjects c"
  by (auto simp: initialize_def case_prod_beta Let_def split: promise.splits)

section \<open>Closing a context\<close>

text \<open>
  C3. When the broadcast of \<open>close-display-context\<close> resolved with the replies \<open>m\<close>:
  if a reply carries the command \<open>hide-display-context\<close> (the worker hid the context
  instead of closing it), \<open>close\<close> leaves the context (both maps) as it was, the store
  key and the published topics are what they were before the call, and the call resolves
  with the replies; if no reply does, both maps are empty afterwards, the store key is
  removed exactly when it held the name of this context, and one
  \<open>display.displayContext.closed\<close> event with all the replies is published.
\<close>

theorem close_hidden_or_closed:
  assumes "executeInAvailableDisplays b (close_display_context (name c)) w = (Resolved m, w1)"
  shows "((\<exists>res \<in> set m. command res = Some ''hide-display-context'') \<longrightarrow>
            close b c w = (Resolved m, c, w1)
            \<and> activeDisplayContext w1 = activeDisplayContext w
            \<and> published w1 = published w)
       \<and> (\<not> (\<exists>res \<in> set m. command res = Some ''hide-display-context'') \<longrightarrow>
            fst (close b c w) = Resolved m
            \<and> displayWindows (fst (snd (close b c w))) = []
            \<and> viewObjects (fst (snd (close b c w))) = []
            \<and> activeDisplayContext (snd (snd (close b c w)))
                = (if activeDisplayContext w = Some (name c) then None else activeDisplayContext w)
            \<and> published (snd (snd (close b c w)))
                = published w @ [(''display.displayContext.closed'', displayContextClosed m)])"
proof -
  have st: "activeDisplayContext w1 = activeDisplayContext w"
    using executeInAvailableDisplays_store [of b "close_display_context (name c)" w] assms by simp
  have pu: "published w1 = published w"
    using executeInAvailableDisplays_published [of b "close_display_context (name c)" w] assms by simp
  show ?thesis
    using assms st pu by (simp add: close_def list_ex_iff)
qed

theorem close_hidden_or_closed_witness:
  "close keeping_worker alpha_context alpha_active =
     (Resolved [status_reply ''hide-display-context''], alpha_context,
      \<lparr>clock = 2, activeDisplayContext = Some ''alpha'', published = [],
       requests = [(''rpc-display-front'', close_display_context ''alpha'')]\<rparr>)
   \<and> fst (close front_worker alpha_context alpha_active) = Resolved [status_reply ''close-display-context'']
   \<and> displayWindows (fst (snd (close front_worker alpha_context alpha_active))) = []
   \<and> viewObjects (fst (snd (close front_worker alpha_context alpha_active))) = []
   \<and> activeDisplayContext (snd (snd (close front_worker alpha_context alpha_active))) = None
   \<and> published (snd (snd (close front_worker alpha_context alpha_active))) =
       [(''display.displayContext.closed'', displayContextClosed [status_reply ''close-display-context''])]"
proof -
  have k: "executeInAvailableDisplays keeping_worker (close_display_context (name alpha_context)) alpha_active =
      (Resolved [status_reply ''hide-display-context''],
       \<lparr>clock = 2, activeDisplayContext = Some ''alpha'', published = [],
        requests = [(''rpc-display-front'', close_display_context ''alpha'')]\<rparr>)"
    by (simp add: broadcast_defs example_defs keeping_worker_def)
  have f: "executeInAvailableDisplays front_worker (close_display_context (name alpha_context)) alpha_active =
      (Resolved [status_reply ''close-display-context''],
       \<lparr>clock = 2, activeDisplayContext = Some ''alpha'', published = [],
        requests = [(''rpc-display-front'', close_display_context ''alpha'')]\<rparr>)"
    by (simp add: broadcast_defs example_defs)
  have a: "activeDisplayContext alpha_active = Some (name alpha_context)"
    by (simp add: example_defs)
  have p: "published alpha_active = []"
    by (simp add: example_defs)
  have h: "command (status_reply ''hide-display-context'') = Some ''hide-display-context''"
    by (simp add: status_reply_def)
  have c: "command (status_reply ''close-display-context'') \<noteq> Some ''hide-display-context''"
    by (simp add: status_reply_def)
  show ?thesis
    using close_hidden_or_closed [OF k] close_hidden_or_closed [OF f] a p h c by simp
qed

section \<open>Cleaning up after a worker\<close>

lemma fold_map_delete: "fold map_delete ks m = filter (\<lambda>p. fst p \<notin> set ks) m"
proof (induction ks arbitrary: m)
  case Nil
  show ?case by simp
next
  case (Cons k ks)
  have "fold map_delete (k # ks) m = filter (\<lambda>p. fst p \<notin> set ks) (map_delete k m)"
    by (simp add: Cons.IH)
  also have "\<dots> = filter (\<lambda>p. fst p \<notin> set (k # ks)) m"
    by (simp add: map_delete_def conj_commute)
  finally show ?case .
qed

lemma delete_matching_keys:
  assumes "distinct (map fst m)"
  shows "filter (\<lambda>p. fst p \<notin> set (map fst (filter P m))) m = filter (\<lambda>p. \<not> P p) m"
proof (rule filter_cong [OF refl])
  fix p assume p: "p \<in> set m"
  show "(fst p \<notin> set (map fst (filter P m))) = (\<not> P p)"
  proof
    assume "fst p \<notin> set (map fst (filter P m))"
    then show "\<not> P p" using p by force
  next
    assume np: "\<not> P p"
    show "fst p \<notin> set (map fst (filter P m))"
    proof
      assume "fst p \<in> set (map fst (filter P m))"
      then obtain q where q: "q \<in> set m" "P q" "fst q = fst p" by auto
      have "q = p"
        using assms p q by (metis eq_key_imp_eq_value prod.collapse)
      then show False using np q by simp
    qed
  qed
qed

lemma clean_windows_result:
  assumes "distinct (map fst (displayWindows c))"
  shows "clean_windows D c =
           (map fst (filter (\<lambda>(k, v). displayName v = Some D) (displayWindows c)),
            c\<lparr>displayWindows := filter (\<lambda>(k, v). displayName v \<noteq> Some D) (displayWindows c)\<rparr>)"
  using delete_matching_keys [OF assms, of "\<lambda>(k, v). displayName v = Some D"]
  by (simp add: clean_windows_def fold_map_delete split_def)

lemma clean_viewObjects_result:
  assumes "distinct (map fst (viewObjects c))"
  shows "clean_viewObjects D c =
           (map fst (filter (\<lambda>(k, v). displayName v = Some D) (viewObjects c)),
            c\<lparr>viewObjects := filter (\<lambda>(k, v). displayName v \<noteq> Some D) (viewObjects c)\<rparr>)"
  using delete_matching_keys [OF assms, of "\<lambda>(k, v). displayName v = Some D"]
  by (simp add: clean_viewObjects_def fold_map_delete split_def)

lemma startsWith_prefixed: "startsWith (p @ s) p"
  by (simp add: startsWith_def)

lemma indexOf_prefixed: "indexOf (p @ s) p = 0"
proof (cases "p @ s")
  case Nil
  then show ?thesis by (simp add: indexOf_def)
next
  case (Cons a l)
  then show ?thesis using startsWith_prefixed [of p s] by (simp add: indexOf_def)
qed

lemma replace_prefixed: "p \<noteq> [] \<Longrightarrow> replace (p @ s) p [] = s"
proof (cases "p @ s")
  case Nil
  assume "p \<noteq> []"
  then show ?thesis using Nil by simp
next
  case (Cons a l)
  have "drop (length p) (a # l) = s" using Cons [symmetric] by simp
  then show ?thesis using Cons startsWith_prefixed [of p s] by simp
qed

text \<open>
  C7. For a context whose maps hold no key twice (no \<open>Map\<close> does), \<open>_clean\<close> for the
  display \<open>D\<close> removes exactly the windows whose \<open>displayName\<close> is \<open>D\<close>, then exactly the
  view objects whose \<open>displayName\<close> is \<open>D\<close> (the step that removes the windows leaves the
  view objects alone), and then, when a handler is registered, calls it once with \<open>D\<close>,
  the removed window names and the removed view object ids, in the order of the maps;
  with no handler nothing is called. The \<open>display.removed\<close> topic with payload \<open>D\<close> and
  the deletion of the queue \<open>rpc-display-D\<close> both run this routine for \<open>D\<close>.
\<close>

theorem clean_removes_display:
  assumes "distinct (map fst (displayWindows c))" and "distinct (map fst (viewObjects c))"
  shows "displayWindows (clean D c) = filter (\<lambda>(k, v). displayName v \<noteq> Some D) (displayWindows c)
       \<and> viewObjects (clean D c) = filter (\<lambda>(k, v). displayName v \<noteq> Some D) (viewObjects c)
       \<and> quit_messages (clean D c) =
           (if displayWorkerQuitHandler c then
              quit_messages c @
                [\<lparr>closedDisplay = D,
                  closedWindows = map fst (filter (\<lambda>(k, v). displayName v = Some D) (displayWindows c)),
                  closedViewObjects = map fst (filter (\<lambda>(k, v). displayName v = Some D) (viewObjects c))\<rparr>]
            else quit_messages c)
       \<and> viewObjects (snd (clean_windows D c)) = viewObjects c
       \<and> on_display_removed D c = clean D c
       \<and> onQueueDeleted (''rpc-display-'' @ D) c = clean D c"
proof -
  have w: "clean_windows D c =
           (map fst (filter (\<lambda>(k, v). displayName v = Some D) (displayWindows c)),
            c\<lparr>displayWindows := filter (\<lambda>(k, v). displayName v \<noteq> Some D) (displayWindows c)\<rparr>)"
    by (rule clean_windows_result [OF assms(1)])
  have v: "clean_viewObjects D (c\<lparr>displayWindows := filter (\<lambda>(k, v). displayName v \<noteq> Some D) (displayWindows c)\<rparr>) =
           (map fst (filter (\<lambda>(k, v). displayName v = Some D) (viewObjects c)),
            c\<lparr>displayWindows := filter (\<lambda>(k, v). displayName v \<noteq> Some D) (displayWindows c),
              viewObjects := filter (\<lambda>(k, v). displayName v \<noteq> Some D) (viewObjects c)\<rparr>)"
    using clean_viewObjects_result [of "c\<lparr>displayWindows := filter (\<lambda>(k, v). displayName v \<noteq> Some D) (displayWindows c)\<rparr>" D]
      assms(2) by simp
  have q: "onQueueDeleted (''rpc-display-'' @ D) c = clean D c"
    using indexOf_prefixed [of "''rpc-display-''" D] replace_prefixed [of "''rpc-display-''" D]
    by (simp add: onQueueDeleted_def)
  show ?thesis
    using q by (simp add: clean_def w v on_display_removed_def)
qed

theorem clean_removes_display_witness:
  "displayWindows (clean ''front'' alpha_context) = []
   \<and> viewObjects (clean ''front'' alpha_context) = []
   \<and> quit_messages (clean ''front'' alpha_context) =
       [\<lparr>closedDisplay = ''front'', closedWindows = [Some ''main''], closedViewObjects = [Some ''p1'']\<rparr>]
   \<and> onQueueDeleted ''rpc-display-front'' alpha_context = clean ''front'' alpha_context"
  using clean_removes_display [of alpha_context "''front''"]
  by (simp add: alpha_context_def main_window_def p1_viewObject_def)

section \<open>Gathering the replies\<close>

lemma fold_restore_window_count: "fst (fold restore_window ws nc) = fst nc + length ws"
  by (induction ws arbitrary: nc) (auto simp: restore_window_def)

lemma fold_restore_window_context:
  "name (snd (fold restore_window ws nc)) = name (snd nc)
   \<and> viewObjects (snd (fold restore_window ws nc)) = viewObjects (snd nc)"
  by (induction ws arbitrary: nc) (auto simp: restore_window_def)

lemma restore_viewObject_context:
  "name (restore_viewObject kv c) = name c \<and> displayWindows (restore_viewObject kv c) = displayWindows c"
  by (auto simp: restore_viewObject_def split: option.splits)

lemma fold_restore_viewObject_context:
  "name (fold restore_viewObject vs c) = name c
   \<and> displayWindows (fold restore_viewObject vs c) = displayWindows c"
  by (induction vs arbitrary: c) (auto simp: restore_viewObject_context)

lemma restore_state_count:
  "fst (restore_state state nc) =
     fst nc + (case state_windows state of None \<Rightarrow> 0 | Some ws \<Rightarrow> length ws)"
  by (auto simp: restore_state_def Let_def fold_restore_window_count split: option.splits)

lemma restore_state_name: "name (snd (restore_state state nc)) = name (snd nc)"
  by (auto simp: restore_state_def Let_def fold_restore_window_context fold_restore_viewObject_context
      split: option.splits)

lemma fold_restore_state_count: "fst (fold restore_state states nc) = fst nc + window_total states"
  by (induction states arbitrary: nc) (auto simp: restore_state_count window_total_def)

lemma fold_restore_state_name: "name (snd (fold restore_state states nc)) = name (snd nc)"
  by (induction states arbitrary: nc) (auto simp: restore_state_name)

lemma restore_states_count: "fst (restore_states states c) = window_total states"
  by (simp add: restore_states_def fold_restore_state_count)

lemma restore_states_name: "name (snd (restore_states states c)) = name c"
  by (simp add: restore_states_def fold_restore_state_name)

text \<open>With no window reported, nothing is gathered.\<close>

lemma restore_viewObject_no_windows: "displayWindows c = [] \<Longrightarrow> restore_viewObject kv c = c"
  by (simp add: restore_viewObject_def)

lemma fold_restore_viewObject_no_windows: "displayWindows c = [] \<Longrightarrow> fold restore_viewObject vs c = c"
  by (induction vs) (auto simp: restore_viewObject_no_windows)

lemma restore_state_no_windows:
  assumes "displayWindows (snd nc) = []"
    and "(case state_windows state of None \<Rightarrow> 0 | Some ws \<Rightarrow> length ws) = 0"
  shows "restore_state state nc = nc"
  using assms
  by (auto simp: restore_state_def Let_def fold_restore_viewObject_no_windows split: option.splits)

lemma fold_restore_state_no_windows:
  "displayWindows (snd nc) = [] \<Longrightarrow> window_total states = 0 \<Longrightarrow> fold restore_state states nc = nc"
proof (induction states)
  case Nil
  show ?case by simp
next
  case (Cons s states)
  have "restore_state s nc = nc"
    using Cons.prems by (intro restore_state_no_windows) (auto simp: window_total_def)
  then show ?case using Cons by (simp add: window_total_def)
qed

lemma restore_states_no_windows:
  "window_total states = 0 \<Longrightarrow> restore_states states c = (0, c\<lparr>displayWindows := [], viewObjects := []\<rparr>)"
  by (simp add: restore_states_def fold_restore_state_no_windows)

section \<open>The branches of reconciliation\<close>

lemma new_requests_append: "requests w' = requests w @ ts \<Longrightarrow> new_requests w w' = ts"
  by (simp add: new_requests_def)

lemma restore_not_resolved:
  assumes "executeInAvailableDisplays b (get_dw_context_windows_vbo (name c)) w = (p, w1)"
    and "\<forall>states. p \<noteq> Resolved states"
  shows "restoreFromDisplayWorkerStates b c reset w = (then_value JArray p, c, w1)"
  using assms by (cases p) (auto simp: restoreFromDisplayWorkerStates_def then_value_def)

lemma restore_initialization:
  assumes "executeInAvailableDisplays b (get_dw_context_windows_vbo (name c)) w = (Resolved states, w1)"
    and "window_total states = 0"
  shows "restoreFromDisplayWorkerStates b c reset w =
           (let (pb, c2, w2) = getWindowBounds b (c\<lparr>displayWindows := [], viewObjects := []\<rparr>) w1
            in case pb of
                 Rejected e \<Rightarrow> (Rejected e, c2, w2)
               | Pending \<Rightarrow> (Pending, c2, w2)
               | Resolved bounds \<Rightarrow>
                   (let (pi, bounds1, c3, w3) = initialize b bounds c2 w2
                    in (then_value JObject pi, c3\<lparr>window_settings := Some bounds1\<rparr>, w3)))"
  using assms by (simp add: restoreFromDisplayWorkerStates_def restore_states_no_windows)


lemma restore_show:
  assumes "executeInAvailableDisplays b (get_dw_context_windows_vbo (name c)) w = (Resolved states, w1)"
    and "window_total states \<noteq> 0"
  shows "restoreFromDisplayWorkerStates b c False w =
           (then_value JArray (fst (show_context b (snd (restore_states states c)) w1)),
            snd (restore_states states c),
            snd (show_context b (snd (restore_states states c)) w1))"
  using assms restore_states_count [of states c]
  by (simp add: restoreFromDisplayWorkerStates_def case_prod_beta)

lemma restore_reset:
  assumes "executeInAvailableDisplays b (get_dw_context_windows_vbo (name c)) w = (Resolved states, w1)"
    and "window_total states \<noteq> 0"
  shows "restoreFromDisplayWorkerStates b c True w =
           (case fst (show_context b (snd (restore_states states c)) w1) of
              Resolved m \<Rightarrow>
                (then_value JArray
                   (fst (reloadAll b (snd (restore_states states c))
                          (snd (show_context b (snd (restore_states states c)) w1)))),
                 snd (restore_states states c),
                 snd (reloadAll b (snd (restore_states states c))
                        (snd (show_context b (snd (restore_states states c)) w1))))
            | Rejected e \<Rightarrow>
                (Rejected e, snd (restore_states states c),
                 snd (show_context b (snd (restore_states states c)) w1))
            | Pending \<Rightarrow>
                (Pending, snd (restore_states states c),
                 snd (show_context b (snd (restore_states states c)) w1)))"
  using assms restore_states_count [of states c]
  by (simp add: restoreFromDisplayWorkerStates_def case_prod_beta split: promise.splits)

lemma restore_gathered_context:
  assumes "executeInAvailableDisplays b (get_dw_context_windows_vbo (name c)) w = (Resolved states, w1)"
    and "window_total states \<noteq> 0"
  shows "fst (snd (restoreFromDisplayWorkerStates b c reset w)) = snd (restore_states states c)"
proof (cases reset)
  case True
  then show ?thesis using restore_reset [OF assms] by (simp split: promise.splits)
next
  case False
  then show ?thesis using restore_show [OF assms] by simp
qed



lemmas context_defs = new_DisplayContext_def restoreFromDisplayWorkerStates_def restore_states_def
  restore_state_def restore_window_def restore_viewObject_def new_DisplayWindow_def new_ViewObject_def
  show_context_def reloadAll_def reload_requests_def getWindowBounds_def initialize_def
  create_window_requests_def String_of_def then_value_def truthy_def



section \<open>No dangling view objects\<close>

lemma map_set_keys: "fst ` set (map_set k v m) = insert k (fst ` set m)"
  by (induction m) auto

lemma map_set_entries: "set (map_set k v m) \<subseteq> insert (k, v) (set m)"
  by (induction m) auto

lemma map_has_keys: "map_has m k = (k \<in> fst ` set m)"
  by (simp add: map_has_def map_of_eq_None_iff)

text \<open>The keys of the window map only grow while the replies are gathered.\<close>

lemma restore_window_keys:
  "fst ` set (displayWindows (snd nc)) \<subseteq> fst ` set (displayWindows (snd (restore_window kv nc)))"
  by (auto simp: restore_window_def map_set_keys)

lemma fold_restore_window_keys:
  "fst ` set (displayWindows (snd nc)) \<subseteq> fst ` set (displayWindows (snd (fold restore_window ws nc)))"
proof (induction ws arbitrary: nc)
  case Nil
  show ?case by simp
next
  case (Cons kv ws)
  show ?case using restore_window_keys [of nc kv] Cons [of "restore_window kv nc"] by auto
qed

lemma restore_state_windows:
  "displayWindows (snd (restore_state state nc)) =
     displayWindows (snd (case state_windows state of None \<Rightarrow> nc | Some ws \<Rightarrow> fold restore_window ws nc))"
  by (auto simp: restore_state_def Let_def fold_restore_viewObject_context split: option.splits)

lemma restore_state_keys:
  "fst ` set (displayWindows (snd nc)) \<subseteq> fst ` set (displayWindows (snd (restore_state state nc)))"
  using fold_restore_window_keys [of nc]
  by (auto simp: restore_state_windows split: option.splits)

lemma fold_restore_state_keys:
  "fst ` set (displayWindows (snd nc)) \<subseteq> fst ` set (displayWindows (snd (fold restore_state states nc)))"
proof (induction states arbitrary: nc)
  case Nil
  show ?case by simp
next
  case (Cons s states)
  show ?case using restore_state_keys [of nc s] Cons [of "restore_state s nc"] by auto
qed

text \<open>A view object entry whose window is not in the map changes nothing.\<close>

lemma restore_viewObject_dropped:
  assumes "Some (snd kv) \<notin> fst ` set (displayWindows c)"
  shows "restore_viewObject kv c = c"
proof -
  have "map_of (displayWindows c) (Some (snd kv)) = None"
    using assms by (simp add: map_of_eq_None_iff)
  then show ?thesis by (simp add: restore_viewObject_def)
qed

lemma fold_restore_viewObject_filter:
  assumes "fst ` set (displayWindows c) \<subseteq> G"
  shows "fold restore_viewObject (filter (\<lambda>kv. Some (snd kv) \<in> G) vs) c = fold restore_viewObject vs c"
  using assms
proof (induction vs arbitrary: c)
  case Nil
  show ?case by simp
next
  case (Cons kv vs)
  have k: "fst ` set (displayWindows (restore_viewObject kv c)) \<subseteq> G"
    using Cons.prems by (simp add: restore_viewObject_context)
  show ?case
  proof (cases "Some (snd kv) \<in> G")
    case True
    then show ?thesis using Cons.IH [OF k] by simp
  next
    case False
    then have "restore_viewObject kv c = c"
      using Cons.prems by (intro restore_viewObject_dropped) auto
    then show ?thesis using False Cons.IH [OF Cons.prems] by simp
  qed
qed

lemma restore_state_without_unresolved:
  assumes "fst ` set (displayWindows (snd (restore_state state nc))) \<subseteq> G"
  shows "restore_state (without_unresolved G state) nc = restore_state state nc"
proof (cases "state_viewObjects state")
  case None
  then show ?thesis by (simp add: restore_state_def without_unresolved_def)
next
  case (Some vs)
  let ?nc1 = "case state_windows state of None \<Rightarrow> nc | Some ws \<Rightarrow> fold restore_window ws nc"
  have "fst ` set (displayWindows (snd ?nc1)) \<subseteq> G"
    using assms by (simp add: restore_state_windows)
  then have "fold restore_viewObject (filter (\<lambda>kv. Some (snd kv) \<in> G) vs) (snd ?nc1)
               = fold restore_viewObject vs (snd ?nc1)"
    by (rule fold_restore_viewObject_filter)
  then show ?thesis using Some by (simp add: restore_state_def without_unresolved_def Let_def)
qed

lemma fold_restore_state_without_unresolved:
  assumes "fst ` set (displayWindows (snd (fold restore_state states nc))) \<subseteq> G"
  shows "fold restore_state (map (without_unresolved G) states) nc = fold restore_state states nc"
  using assms
proof (induction states arbitrary: nc)
  case Nil
  show ?case by simp
next
  case (Cons s states)
  have "fst ` set (displayWindows (snd (restore_state s nc))) \<subseteq> G"
    using fold_restore_state_keys [of "restore_state s nc" states] Cons.prems by auto
  then have "restore_state (without_unresolved G s) nc = restore_state s nc"
    by (rule restore_state_without_unresolved)
  then show ?case using Cons by simp
qed

lemma restore_states_without_unresolved:
  "restore_states (map (without_unresolved (fst ` set (displayWindows (snd (restore_states states c))))) states) c
     = restore_states states c"
  by (simp add: restore_states_def fold_restore_state_without_unresolved)

text \<open>The invariant of the gathering when the replies name their windows by their keys.\<close>

lemma restore_window_keyed:
  assumes "\<forall>kv \<in> set (displayWindows (snd nc)). windowName (snd kv) = fst kv"
    and "windowName (snd e) = Some (fst e)"
  shows "\<forall>kv \<in> set (displayWindows (snd (restore_window e nc))). windowName (snd kv) = fst kv"
proof
  fix kv assume "kv \<in> set (displayWindows (snd (restore_window e nc)))"
  then have "kv = (Some (fst e), new_DisplayWindow (snd e)) \<or> kv \<in> set (displayWindows (snd nc))"
    using map_set_entries [of "Some (fst e)" "new_DisplayWindow (snd e)" "displayWindows (snd nc)"]
    by (auto simp: restore_window_def)
  then show "windowName (snd kv) = fst kv"
    using assms by (auto simp: new_DisplayWindow_def)
qed

lemma fold_restore_window_keyed:
  assumes "\<forall>kv \<in> set (displayWindows (snd nc)). windowName (snd kv) = fst kv"
    and "list_all (\<lambda>kv. windowName (snd kv) = Some (fst kv)) ws"
  shows "\<forall>kv \<in> set (displayWindows (snd (fold restore_window ws nc))). windowName (snd kv) = fst kv"
  using assms
proof (induction ws arbitrary: nc)
  case Nil
  then show ?case by simp
next
  case (Cons e ws)
  have "\<forall>kv \<in> set (displayWindows (snd (restore_window e nc))). windowName (snd kv) = fst kv"
    using Cons.prems by (intro restore_window_keyed) auto
  then show ?case using Cons.IH [of "restore_window e nc"] Cons.prems(2) by simp
qed

lemma restore_viewObject_resolves:
  assumes "\<forall>kv \<in> set (displayWindows c). windowName (snd kv) = fst kv"
    and "\<forall>kv \<in> set (viewObjects c). windowName (snd kv) \<in> fst ` set (displayWindows c)"
  shows "\<forall>kv \<in> set (viewObjects (restore_viewObject e c)).
           windowName (snd kv) \<in> fst ` set (displayWindows (restore_viewObject e c))"
proof (cases "map_of (displayWindows c) (Some (snd e))")
  case None
  then show ?thesis using assms(2) by (simp add: restore_viewObject_def)
next
  case (Some wn)
  then have m: "(Some (snd e), wn) \<in> set (displayWindows c)"
    by (rule map_of_SomeD)
  then have n: "windowName wn = Some (snd e)"
    using assms(1) by force
  let ?v = "new_ViewObject \<lparr>view_id = Some (fst e), displayName = displayName wn,
                 windowName = windowName wn, displayContext = Some (name c)\<rparr>"
  have r: "restore_viewObject e c = c\<lparr>viewObjects := map_set (Some (fst e)) ?v (viewObjects c)\<rparr>"
    using Some by (simp add: restore_viewObject_def)
  show ?thesis
  proof
    fix kv assume "kv \<in> set (viewObjects (restore_viewObject e c))"
    then have "kv = (Some (fst e), ?v) \<or> kv \<in> set (viewObjects c)"
      using r map_set_entries [of "Some (fst e)" ?v "viewObjects c"] by auto
    then show "windowName (snd kv) \<in> fst ` set (displayWindows (restore_viewObject e c))"
      using r n m assms(2) by (force simp: new_ViewObject_def)
  qed
qed

lemma fold_restore_viewObject_resolves:
  assumes "\<forall>kv \<in> set (displayWindows c). windowName (snd kv) = fst kv"
    and "\<forall>kv \<in> set (viewObjects c). windowName (snd kv) \<in> fst ` set (displayWindows c)"
  shows "\<forall>kv \<in> set (viewObjects (fold restore_viewObject vs c)).
           windowName (snd kv) \<in> fst ` set (displayWindows (fold restore_viewObject vs c))"
  using assms
proof (induction vs arbitrary: c)
  case Nil
  then show ?case by simp
next
  case (Cons e vs)
  have 1: "\<forall>kv \<in> set (displayWindows (restore_viewObject e c)). windowName (snd kv) = fst kv"
    using Cons.prems(1) by (simp add: restore_viewObject_context)
  have 2: "\<forall>kv \<in> set (viewObjects (restore_viewObject e c)).
             windowName (snd kv) \<in> fst ` set (displayWindows (restore_viewObject e c))"
    using Cons.prems by (rule restore_viewObject_resolves)
  show ?case using Cons.IH [OF 1 2] by simp
qed

lemma restore_state_resolves:
  assumes "\<forall>kv \<in> set (displayWindows (snd nc)). windowName (snd kv) = fst kv"
    and "\<forall>kv \<in> set (viewObjects (snd nc)). windowName (snd kv) \<in> fst ` set (displayWindows (snd nc))"
    and "named_by_key state"
  shows "(\<forall>kv \<in> set (displayWindows (snd (restore_state state nc))). windowName (snd kv) = fst kv)
       \<and> (\<forall>kv \<in> set (viewObjects (snd (restore_state state nc))).
             windowName (snd kv) \<in> fst ` set (displayWindows (snd (restore_state state nc))))"
proof -
  let ?nc1 = "case state_windows state of None \<Rightarrow> nc | Some ws \<Rightarrow> fold restore_window ws nc"
  have 1: "\<forall>kv \<in> set (displayWindows (snd ?nc1)). windowName (snd kv) = fst kv"
    using assms(1,3) fold_restore_window_keyed [of nc]
    by (auto simp: named_by_key_def split: option.splits)
  have v: "viewObjects (snd ?nc1) = viewObjects (snd nc)"
    by (simp add: fold_restore_window_context split: option.splits)
  have k: "fst ` set (displayWindows (snd nc)) \<subseteq> fst ` set (displayWindows (snd ?nc1))"
    using fold_restore_window_keys [of nc] by (auto split: option.splits)
  have 2: "\<forall>kv \<in> set (viewObjects (snd ?nc1)). windowName (snd kv) \<in> fst ` set (displayWindows (snd ?nc1))"
    using assms(2) v k by auto
  show ?thesis
  proof (cases "state_viewObjects state")
    case None
    then have "restore_state state nc = ?nc1" by (simp add: restore_state_def)
    then show ?thesis using 1 2 by simp
  next
    case (Some vs)
    then have r: "restore_state state nc = (fst ?nc1, fold restore_viewObject vs (snd ?nc1))"
      by (simp add: restore_state_def Let_def)
    have "\<forall>kv \<in> set (viewObjects (fold restore_viewObject vs (snd ?nc1))).
            windowName (snd kv) \<in> fst ` set (displayWindows (fold restore_viewObject vs (snd ?nc1)))"
      using 1 2 by (rule fold_restore_viewObject_resolves)
    moreover have "\<forall>kv \<in> set (displayWindows (fold restore_viewObject vs (snd ?nc1))). windowName (snd kv) = fst kv"
      using 1 by (simp add: fold_restore_viewObject_context)
    ultimately show ?thesis using r by simp
  qed
qed

lemma fold_restore_state_resolves:
  assumes "\<forall>kv \<in> set (displayWindows (snd nc)). windowName (snd kv) = fst kv"
    and "\<forall>kv \<in> set (viewObjects (snd nc)). windowName (snd kv) \<in> fst ` set (displayWindows (snd nc))"
    and "list_all named_by_key states"
  shows "\<forall>kv \<in> set (viewObjects (snd (fold restore_state states nc))).
             windowName (snd kv) \<in> fst ` set (displayWindows (snd (fold restore_state states nc)))"
  using assms
proof (induction states arbitrary: nc)
  case Nil
  then show ?case by simp
next
  case (Cons s states)
  have "named_by_key s" using Cons.prems(3) by simp
  then have i: "(\<forall>kv \<in> set (displayWindows (snd (restore_state s nc))). windowName (snd kv) = fst kv)
       \<and> (\<forall>kv \<in> set (viewObjects (snd (restore_state s nc))).
             windowName (snd kv) \<in> fst ` set (displayWindows (snd (restore_state s nc))))"
    using Cons.prems(1,2) by (intro restore_state_resolves)
  show ?case using Cons.IH [of "restore_state s nc"] i Cons.prems(3) by simp
qed

lemma restore_states_no_dangling:
  "list_all named_by_key states \<Longrightarrow> no_dangling (snd (restore_states states c))"
  using fold_restore_state_resolves [of "(0, c\<lparr>displayWindows := [], viewObjects := []\<rparr>)" states]
  by (simp add: restore_states_def no_dangling_def list_all_iff map_has_keys)

lemma restore_initialization_viewObjects:
  assumes "executeInAvailableDisplays b (get_dw_context_windows_vbo (name c)) w = (Resolved states, w1)"
    and "window_total states = 0"
  shows "viewObjects (fst (snd (restoreFromDisplayWorkerStates b c reset w))) = []"
proof -
  let ?c1 = "c\<lparr>displayWindows := [], viewObjects := []\<rparr>"
  obtain pb c2 w2 where g: "getWindowBounds b ?c1 w1 = (pb, c2, w2)"
    by (cases "getWindowBounds b ?c1 w1") auto
  have v2: "viewObjects c2 = []"
    using getWindowBounds_context [of b ?c1 w1] g by simp
  show ?thesis
  proof (cases pb)
    case (Resolved bounds)
    obtain pi bounds1 c3 w3 where i: "initialize b bounds c2 w2 = (pi, bounds1, c3, w3)"
      by (cases "initialize b bounds c2 w2") auto
    have "viewObjects c3 = []"
      using initialize_context [of b bounds c2 w2] i v2 by simp
    then show ?thesis
      using restore_initialization [OF assms, of reset] g Resolved i by simp
  next
    case (Rejected e)
    then show ?thesis using restore_initialization [OF assms, of reset] g v2 by simp
  next
    case Pending
    then show ?thesis using restore_initialization [OF assms, of reset] g v2 by simp
  qed
qed

text \<open>
  C6, as amended. For a run of \<open>restoreFromDisplayWorkerStates\<close> whose broadcast resolved with
  replies that name their windows by their keys, no view object of the context dangles
  afterwards, whatever branch the run took and however it ended: the \<open>windowName\<close> of
  every view object is a key of the window map.
  And for any replies: a view object entry whose window is not among the windows gathered
  from the replies is dropped without a trace; gathering the replies without such entries
  gives the same count and the same context.
\<close>

theorem restore_no_dangling:
  assumes "executeInAvailableDisplays b (get_dw_context_windows_vbo (name c)) w = (Resolved states, w1)"
    and "list_all named_by_key states"
  shows "no_dangling (fst (snd (restoreFromDisplayWorkerStates b c reset w)))
       \<and> restore_states
            (map (without_unresolved (fst ` set (displayWindows (snd (restore_states states c))))) states) c
           = restore_states states c"
proof
  show "no_dangling (fst (snd (restoreFromDisplayWorkerStates b c reset w)))"
  proof (cases "window_total states = 0")
    case True
    then show ?thesis
      using restore_initialization_viewObjects [OF assms(1), of reset] by (simp add: no_dangling_def)
  next
    case False
    then show ?thesis
      using restore_gathered_context [OF assms(1), of reset] restore_states_no_dangling [OF assms(2), of c]
      by simp
  qed
next
  show "restore_states
            (map (without_unresolved (fst ` set (displayWindows (snd (restore_states states c))))) states) c
           = restore_states states c"
    by (rule restore_states_without_unresolved)
qed

theorem restore_no_dangling_witness:
  "no_dangling (fst (snd (restoreFromDisplayWorkerStates front_worker (new_DisplayContext ''alpha'' []) False idle)))
   \<and> viewObjects (fst (snd (restoreFromDisplayWorkerStates front_worker (new_DisplayContext ''alpha'' []) False idle)))
       = [(Some ''p1'', p1_viewObject)]"
proof -
  have a: "executeInAvailableDisplays front_worker
             (get_dw_context_windows_vbo (name (new_DisplayContext ''alpha'' []))) idle =
           (Resolved [front_answer (get_dw_context_windows_vbo ''alpha'')],
            \<lparr>clock = 2, activeDisplayContext = None, published = [],
             requests = [(''rpc-display-front'', get_dw_context_windows_vbo ''alpha'')]\<rparr>)"
    by (simp add: broadcast_defs front_worker_def front_queues_def idle_def new_DisplayContext_def)
  have n: "list_all named_by_key [front_answer (get_dw_context_windows_vbo ''alpha'')]"
    by (simp add: named_by_key_def front_answer_def status_reply_def main_window_def)
  have v: "viewObjects (fst (snd (restoreFromDisplayWorkerStates front_worker (new_DisplayContext ''alpha'' []) False idle)))
       = [(Some ''p1'', p1_viewObject)]"
    by (simp add: context_defs broadcast_defs example_defs)
  show ?thesis
    using restore_no_dangling [OF a n, of False] v by simp
qed

text \<open>
  C6 as stated fails: a view object takes the \<open>windowName\<close> its window declares, not the key
  the window is stored under. A worker that reports the window \<open>main\<close> under the key \<open>w1\<close>
  leaves, after a successful run, the view object \<open>p1\<close> with \<open>windowName\<close> \<open>main\<close> in a
  context whose only window has the key \<open>w1\<close>.
\<close>

theorem restore_dangling_counterexample:
  "fst (restoreFromDisplayWorkerStates mislabelling_worker (new_DisplayContext ''alpha'' []) False idle)
     = Resolved (JArray [status_reply ''set-display-context''])
   \<and> displayWindows (fst (snd (restoreFromDisplayWorkerStates mislabelling_worker
         (new_DisplayContext ''alpha'' []) False idle))) = [(Some ''w1'', main_window)]
   \<and> viewObjects (fst (snd (restoreFromDisplayWorkerStates mislabelling_worker
         (new_DisplayContext ''alpha'' []) False idle))) = [(Some ''p1'', p1_viewObject)]
   \<and> windowName p1_viewObject = Some ''main''
   \<and> \<not> no_dangling (fst (snd (restoreFromDisplayWorkerStates mislabelling_worker
         (new_DisplayContext ''alpha'' []) False idle)))"
  by (simp add: context_defs broadcast_defs example_defs mislabelling_worker_def no_dangling_def map_has_def)

section \<open>Reconciliation as the factory sees it\<close>




lemma restore_store:
  "activeDisplayContext (snd (snd (restoreFromDisplayWorkerStates b c reset w))) = activeDisplayContext w
   \<or> activeDisplayContext (snd (snd (restoreFromDisplayWorkerStates b c reset w))) = Some (name c)"
proof -
  obtain p w1 where e: "executeInAvailableDisplays b (get_dw_context_windows_vbo (name c)) w = (p, w1)"
    by (cases "executeInAvailableDisplays b (get_dw_context_windows_vbo (name c)) w") auto
  have s1: "activeDisplayContext w1 = activeDisplayContext w"
    using executeInAvailableDisplays_store [of b "get_dw_context_windows_vbo (name c)" w] e by simp
  show ?thesis
  proof (cases p)
    case (Resolved states)
    note r = e [unfolded Resolved]
    let ?g = "snd (restore_states states c)"
    have ng: "name ?g = name c" by (rule restore_states_name)
    show ?thesis
    proof (cases "window_total states = 0")
      case False
      have sh: "activeDisplayContext (snd (show_context b ?g w1)) = activeDisplayContext w
              \<or> activeDisplayContext (snd (show_context b ?g w1)) = Some (name c)"
        using show_context_store [of b ?g w1] s1 ng by (auto split: promise.splits)
      show ?thesis
      proof (cases reset)
        case False
        then show ?thesis
          using restore_show [OF r \<open>window_total states \<noteq> 0\<close>] sh by simp
      next
        case True
        then show ?thesis
          using restore_reset [OF r \<open>window_total states \<noteq> 0\<close>] sh
            reloadAll_store [of b ?g "snd (show_context b ?g w1)"]
          by (auto split: promise.splits)
      qed
    next
      case True
      let ?c1 = "c\<lparr>displayWindows := [], viewObjects := []\<rparr>"
      obtain pb c2 w2 where g: "getWindowBounds b ?c1 w1 = (pb, c2, w2)"
        by (cases "getWindowBounds b ?c1 w1") auto
      have s2: "activeDisplayContext w2 = activeDisplayContext w"
        using getWindowBounds_store [of b ?c1 w1] g s1 by simp
      have n2: "name c2 = name c"
        using getWindowBounds_context [of b ?c1 w1] g by simp
      show ?thesis
      proof (cases pb)
        case (Resolved bounds)
        obtain pi bounds1 c3 w3 where i: "initialize b bounds c2 w2 = (pi, bounds1, c3, w3)"
          by (cases "initialize b bounds c2 w2") auto
        have "activeDisplayContext w3 = activeDisplayContext w \<or> activeDisplayContext w3 = Some (name c)"
          using initialize_store [of b bounds c2 w2] i s2 n2 by auto
        then show ?thesis
          using restore_initialization [OF r True, of reset] g Resolved i by simp
      next
        case (Rejected e')
        then show ?thesis using restore_initialization [OF r True, of reset] g s2 by simp
      next
        case Pending
        then show ?thesis using restore_initialization [OF r True, of reset] g s2 by simp
      qed
    qed
  next
    case (Rejected e')
    then show ?thesis using restore_not_resolved [OF e, of reset] s1 by simp
  next
    case Pending
    then show ?thesis using restore_not_resolved [OF e, of reset] s1 by simp
  qed
qed

section \<open>Activating and reading the active context\<close>

lemma setActive_store:
  "activeDisplayContext (snd (setActive (restoreFromDisplayWorkerStates b) n reset w)) = Some n"
proof (cases "activeDisplayContext w = Some n")
  case True
  then show ?thesis by (simp add: setActive_def getset_def)
next
  case False
  let ?w = "w\<lparr>activeDisplayContext := Some n\<rparr>"
  let ?r = "restoreFromDisplayWorkerStates b (new_DisplayContext n []) reset ?w"
  have "activeDisplayContext (snd (snd ?r)) = Some n"
    using restore_store [of b "new_DisplayContext n []" reset ?w] by (auto simp: new_DisplayContext_def)
  then show ?thesis
    using False by (cases "fst ?r") (simp_all add: setActive_def getset_def case_prod_beta)
qed

text \<open>
  C4. When the store key already holds the requested name, \<open>setActive\<close> resolves with
  \<open>false\<close> and leaves everything as it was: nothing is published, no request is issued,
  and the result does not depend on the reconciliation it was given, which is not run.
  This is what a second call for the same name meets: after \<open>setActive\<close> for a name, with
  \<open>restoreFromDisplayWorkerStates\<close> of src/displaycontext.js as the reconciliation and
  however that call ended, the key holds the name, and \<open>setActive\<close> for the name again
  resolves with \<open>false\<close> and changes nothing.
\<close>

theorem setActive_already_active:
  "(activeDisplayContext w = Some n \<longrightarrow> setActive restore n reset w = (Resolved JFalse, w))
   \<and> setActive restore n reset (snd (setActive (restoreFromDisplayWorkerStates b) n reset1 w))
       = (Resolved JFalse, snd (setActive (restoreFromDisplayWorkerStates b) n reset1 w))"
  using setActive_store [of b n reset1 w] by (simp add: setActive_def getset_def)

theorem setActive_already_active_witness:
  "setActive (restoreFromDisplayWorkerStates front_worker) ''alpha'' False alpha_active
     = (Resolved JFalse, alpha_active)"
  using setActive_already_active [of alpha_active "''alpha''" "restoreFromDisplayWorkerStates front_worker" False]
  by (simp add: alpha_active_def)






section \<open>Hiding every context\<close>





section \<open>Creating a view object in a window the context does not have\<close>

lemma createViewObject_not_defined:
  assumes "\<not> map_has (displayWindows c) (Some wn)"
    and "getWindowBounds b c w = (Resolved bounds, c1, w1)"
    and "wn \<notin> fst ` set bounds"
  shows "\<exists>c2. createViewObject (Suc n) b options wn c w = Some (Rejected (WindowName_not_defined wn), c2, w1)"
  using assms by (simp add: window_promise_def Let_def)

lemma createViewObject_never_settles:
  assumes "\<not> map_has (displayWindows c) (Some wn)"
    and "getWindowBounds b c w = (Resolved bounds, c1, w1)"
    and "wn \<in> fst ` set bounds"
  shows "\<exists>bounds1 pi bounds2 c2 w2.
           map fst bounds1 = map fst bounds
           \<and> initialize b bounds1 (c1\<lparr>window_settings := Some bounds1\<rparr>) w1 = (pi, bounds2, c2, w2)
           \<and> createViewObject (Suc n) b options wn c w = Some (Pending, c2\<lparr>window_settings := Some bounds2\<rparr>, w2)
           \<and> (\<forall>t \<in> set (new_requests w w2). \<forall>v. snd t \<noteq> create_viewobj v)"
proof -
  let ?bounds1 = "map (\<lambda>(k, s). (k, s\<lparr>displayName := (if displayName s = None then Some k else displayName s),
                                       windowName := Some k, template := Some ''index.html'',
                                       displayContext := Some (name c)\<rparr>)) bounds"
  let ?c1 = "c1\<lparr>window_settings := Some ?bounds1\<rparr>"
  obtain pi bounds2 c2 w2 where i: "initialize b ?bounds1 ?c1 w1 = (pi, bounds2, c2, w2)"
    by (cases "initialize b ?bounds1 ?c1 w1") auto
  have k: "map fst ?bounds1 = map fst bounds"
    by (simp add: case_prod_beta)
  have r: "createViewObject (Suc n) b options wn c w = Some (Pending, c2\<lparr>window_settings := Some bounds2\<rparr>, w2)"
    using assms i by (simp add: window_promise_def Let_def)
  obtain ts1 where ts1: "requests w1 = requests w @ ts1"
      "\<forall>t \<in> set ts1. snd t = get_window_bounds (name c)"
    using getWindowBounds_requests [of b c w] assms(2) by auto
  obtain ts2 where ts2: "requests w2 = requests w1 @ ts2"
      "\<forall>t \<in> set ts2. snd t = set_display_context (name ?c1) \<or> (\<exists>s. snd t = create_window s)"
    using initialize_requests [of b ?bounds1 ?c1 w1] i by auto
  have "new_requests w w2 = ts1 @ ts2"
    using ts1(1) ts2(1) by (intro new_requests_append) simp
  then have q: "\<forall>t \<in> set (new_requests w w2). \<forall>v. snd t \<noteq> create_viewobj v"
    using ts1(2) ts2(2) by auto
  show ?thesis
    using k i r q by blast
qed

text \<open>
  C8, what the code does. For a call of \<open>createViewObject\<close> with a window name that is not in
  the window map, once \<open>getWindowBounds\<close> resolved with \<open>bounds\<close>:
  when the name is not a key of \<open>bounds\<close>, the call is rejected with the error that names the
  window, and nothing more is requested;
  when the name is a key of \<open>bounds\<close>, \<open>initialize\<close> is started on the bounds (each with its
  names, template and context filled in), and the promise returned never settles: its
  executor never calls \<open>resolve\<close>, so the \<open>then\<close> that would call \<open>createViewObject\<close> again
  never runs. No \<open>create-viewobj\<close> request is issued, and one level of calls is all the
  function ever uses, whatever bound on the nesting it is given.
\<close>

theorem createViewObject_missing_window:
  assumes "\<not> map_has (displayWindows c) (Some wn)"
    and "getWindowBounds b c w = (Resolved bounds, c1, w1)"
  shows "(wn \<notin> fst ` set bounds \<longrightarrow>
            (\<exists>c2. createViewObject (Suc n) b options wn c w = Some (Rejected (WindowName_not_defined wn), c2, w1)))
       \<and> (wn \<in> fst ` set bounds \<longrightarrow>
            (\<exists>bounds1 pi bounds2 c2 w2.
               map fst bounds1 = map fst bounds
               \<and> initialize b bounds1 (c1\<lparr>window_settings := Some bounds1\<rparr>) w1 = (pi, bounds2, c2, w2)
               \<and> createViewObject (Suc n) b options wn c w = Some (Pending, c2\<lparr>window_settings := Some bounds2\<rparr>, w2)
               \<and> (\<forall>t \<in> set (new_requests w w2). \<forall>v. snd t \<noteq> create_viewobj v)))"
  using createViewObject_not_defined [OF assms] createViewObject_never_settles [OF assms] by blast

lemmas createViewObject_defs = window_promise_def DisplayWindow_createViewObject_def postRequest_def map_has_def

theorem createViewObject_missing_window_witness:
  "createViewObject (Suc 1) front_worker page ''sidebar'' (new_DisplayContext ''beta'' side_settings) idle =
     Some (Pending,
       \<lparr>name = ''beta'',
        displayWindows =
          [(Some ''sidebar'', \<lparr>view_id = None, displayName = Some ''front'', windowName = Some ''sidebar'',
              displayContext = Some ''beta'', template = Some ''index.html'',
              geometry = (Some 0, Some 0, Some 300, Some 600)\<rparr>)],
        viewObjects = [],
        window_settings =
          Some [(''sidebar'', \<lparr>view_id = None, displayName = Some ''sidebar'', windowName = Some ''sidebar'',
              displayContext = Some ''beta'', template = Some ''index.html'',
              geometry = (Some 0, Some 0, Some 300, Some 600)\<rparr>)],
        displayWorkerQuitHandler = False, quit_messages = []\<rparr>,
       \<lparr>clock = 3, activeDisplayContext = Some ''beta'', published = [],
        requests =
          [(''rpc-display-front'', set_display_context ''beta''),
           (''rpc-display-sidebar'',
            create_window \<lparr>view_id = None, displayName = Some ''sidebar'', windowName = Some ''sidebar'',
              displayContext = Some ''beta'', template = Some ''index.html'',
              geometry = (Some 0, Some 0, Some 300, Some 600)\<rparr>)]\<rparr>)
   \<and> fst (the (createViewObject (Suc 1) front_worker page ''other''
          (new_DisplayContext ''beta'' side_settings) idle)) = Rejected (WindowName_not_defined ''other'')"
proof -
  let ?c = "new_DisplayContext ''beta'' side_settings"
  have h: "\<not> map_has (displayWindows ?c) (Some ''sidebar'')"
    by (simp add: new_DisplayContext_def map_has_def)
  have h': "\<not> map_has (displayWindows ?c) (Some ''other'')"
    by (simp add: new_DisplayContext_def map_has_def)
  have g: "getWindowBounds front_worker ?c idle =
      (Resolved [(''sidebar'', \<lparr>view_id = None, displayName = Some ''sidebar'', windowName = Some ''sidebar'',
              displayContext = Some ''beta'', template = None,
              geometry = (Some 0, Some 0, Some 300, Some 600)\<rparr>)], ?c, idle)"
    by (simp add: getWindowBounds_def new_DisplayContext_def side_settings_def truthy_def)
  have e: "createViewObject (Suc 1) front_worker page ''sidebar'' ?c idle =
     Some (Pending,
       \<lparr>name = ''beta'',
        displayWindows =
          [(Some ''sidebar'', \<lparr>view_id = None, displayName = Some ''front'', windowName = Some ''sidebar'',
              displayContext = Some ''beta'', template = Some ''index.html'',
              geometry = (Some 0, Some 0, Some 300, Some 600)\<rparr>)],
        viewObjects = [],
        window_settings =
          Some [(''sidebar'', \<lparr>view_id = None, displayName = Some ''sidebar'', windowName = Some ''sidebar'',
              displayContext = Some ''beta'', template = Some ''index.html'',
              geometry = (Some 0, Some 0, Some 300, Some 600)\<rparr>)],
        displayWorkerQuitHandler = False, quit_messages = []\<rparr>,
       \<lparr>clock = 3, activeDisplayContext = Some ''beta'', published = [],
        requests =
          [(''rpc-display-front'', set_display_context ''beta''),
           (''rpc-display-sidebar'',
            create_window \<lparr>view_id = None, displayName = Some ''sidebar'', windowName = Some ''sidebar'',
              displayContext = Some ''beta'', template = Some ''index.html'',
              geometry = (Some 0, Some 0, Some 300, Some 600)\<rparr>)]\<rparr>)"
    by (simp add: createViewObject_defs context_defs broadcast_defs example_defs side_settings_def page_def)
  show ?thesis
    using createViewObject_missing_window [OF h g, of 1 page] createViewObject_missing_window [OF h' g, of 1 page] e
    by auto
qed

end
